theory Spec2Isabelle
  imports Main "HOL-Library.Word" "HOL-Library.AList"
begin

unbundle bit_operations_syntax

section \<open>Rendezvous service descriptors: data model\<close>

text \<open>
  This theory embeds the descriptor codec and the descriptor cache of
  \<^verbatim>\<open>src/or/rendcommon.c\<close>. Buffers are lists of bytes, a \<^verbatim>\<open>char*\<close>
  together with its \<^verbatim>\<open>int\<close> length being one list. \<^verbatim>\<open>time_t\<close> and \<^verbatim>\<open>int\<close>
  values are kept as mathematical integers (the signed arithmetic of the source
  has no defined overflow); every conversion to a fixed-width unsigned type of
  the wire format is written out as a conversion to a word. \<^verbatim>\<open>time_t\<close> is taken
  to be wider than the 32-bit timestamp of the wire format, so that the cast of the
  wire value to \<^verbatim>\<open>time_t\<close> keeps its unsigned value.
\<close>

type_synonym byte = "8 word"
type_synonym time_t = int

text \<open>\<^verbatim>\<open>rend_service_descriptor_t\<close>: key, timestamp, and the array of introduction
  point names with its element count.\<close>

record 'k rend_service_descriptor =
  pk :: 'k
  timestamp :: time_t
  n_intro_points :: int
  intro_points :: "byte list list"

text \<open>
  The functions of the crypto layer that the codec calls are not part of this
  file of the program; they are taken as parameters. A negative return value or a
  null pointer of the C interface is \<open>None\<close> (or \<open>False\<close> for the signature check).
  \<^item> \<open>crypto_pk_keysize k\<close>: modulus length in bytes;
  \<^item> \<open>crypto_pk_asn1_encode k cap\<close>: the DER bytes written into a buffer of \<open>cap\<close> bytes;
  \<^item> \<open>crypto_pk_asn1_decode bs\<close>: the key decoded from \<open>bs\<close>;
  \<^item> \<open>crypto_pk_private_sign_digest k data\<close>: the signature bytes written;
  \<^item> \<open>crypto_pk_public_checksig_digest k data sig\<close>: whether \<open>sig\<close> verifies;
  \<^item> \<open>crypto_pk_get_digest k\<close>: the digest of the key;
  \<^item> \<open>base32_encode cap bs\<close>: the base32 text of \<open>bs\<close> for an output buffer of \<open>cap\<close> bytes.
\<close>

record 'k crypto =
  crypto_pk_keysize :: "'k \<Rightarrow> int"
  crypto_pk_asn1_encode :: "'k \<Rightarrow> int \<Rightarrow> byte list option"
  crypto_pk_asn1_decode :: "byte list \<Rightarrow> 'k option"
  crypto_pk_private_sign_digest :: "'k \<Rightarrow> byte list \<Rightarrow> byte list option"
  crypto_pk_public_checksig_digest :: "'k \<Rightarrow> byte list \<Rightarrow> byte list \<Rightarrow> bool"
  crypto_pk_get_digest :: "'k \<Rightarrow> byte list option"
  base32_encode :: "nat \<Rightarrow> byte list \<Rightarrow> string option"

subsection \<open>Byte-order helpers and C strings\<close>

text \<open>\<^verbatim>\<open>set_uint16(cp, htons(x))\<close> stores \<open>x\<close> most significant byte first;
  \<^verbatim>\<open>ntohs(get_uint16(cp))\<close> reads it back. The same for 32 bits.\<close>

definition set_uint16_htons :: "16 word \<Rightarrow> byte list" where
  "set_uint16_htons x = [ucast (drop_bit 8 x), ucast x]"

definition ntohs_get_uint16 :: "byte list \<Rightarrow> 16 word" where
  "ntohs_get_uint16 cp = push_bit 8 (ucast (cp ! 0)) OR ucast (cp ! 1)"

definition set_uint32_htonl :: "32 word \<Rightarrow> byte list" where
  "set_uint32_htonl x =
     [ucast (drop_bit 24 x), ucast (drop_bit 16 x), ucast (drop_bit 8 x), ucast x]"

definition ntohl_get_uint32 :: "byte list \<Rightarrow> 32 word" where
  "ntohl_get_uint32 cp =
     push_bit 24 (ucast (cp ! 0)) OR push_bit 16 (ucast (cp ! 1))
       OR push_bit 8 (ucast (cp ! 2)) OR ucast (cp ! 3)"

text \<open>\<^verbatim>\<open>memchr(cp, c, n)\<close> over the whole remaining buffer: the offset of the
  first occurrence of \<open>c\<close>, if any.\<close>

fun memchr :: "byte list \<Rightarrow> byte \<Rightarrow> nat option" where
  "memchr [] c = None"
| "memchr (b # bs) c =
     (if b = c then Some 0
      else case memchr bs c of None \<Rightarrow> None | Some i \<Rightarrow> Some (Suc i))"

text \<open>The characters of a C string held in a buffer: everything before the first NUL.
  \<^verbatim>\<open>strlen\<close> counts them, \<^verbatim>\<open>strcpy\<close> writes them followed by one NUL.\<close>

definition c_str :: "byte list \<Rightarrow> byte list" where
  "c_str s = takeWhile (\<lambda>b. b \<noteq> 0) s"

definition strlen :: "byte list \<Rightarrow> nat" where
  "strlen s = length (c_str s)"

definition strcpy :: "byte list \<Rightarrow> byte list" where
  "strcpy s = c_str s @ [0]"

section \<open>The wire codec\<close>

datatype encode_error = AsnEncode | SignFailed | AssertFailed

text \<open>
  \<^verbatim>\<open>rend_encode_service_descriptor\<close>. The loops run over the first
  \<open>n_intro_points\<close> elements of the array. \<open>len_out\<close> is computed before the
  buffer is filled, and the final \<^verbatim>\<open>tor_assert\<close> compares it with the number of
  bytes written.
\<close>

definition rend_encode_service_descriptor ::
  "'k crypto \<Rightarrow> 'k rend_service_descriptor \<Rightarrow> 'k \<Rightarrow> encode_error + byte list" where
  "rend_encode_service_descriptor cr desc key =
     (let keylen = crypto_pk_keysize cr (pk desc) in
      (case crypto_pk_asn1_encode cr (pk desc) (keylen * 2) of
         None \<Rightarrow> Inl AsnEncode
       | Some buf \<Rightarrow>
          (let asn1len = int (length buf);
               ipoints = take (nat (n_intro_points desc)) (intro_points desc);
               len_out = 2 + asn1len + 4 + 2 + keylen
                           + sum_list (map (\<lambda>ip. int (strlen ip) + 1) ipoints);
               str_out = set_uint16_htons (word_of_int asn1len) @ buf
                           @ set_uint32_htonl (word_of_int (timestamp desc))
                           @ set_uint16_htons (word_of_int (n_intro_points desc))
                           @ concat (map strcpy ipoints)
           in (case crypto_pk_private_sign_digest cr key str_out of
                 None \<Rightarrow> Inl SignFailed
               | Some sig \<Rightarrow>
                  (if len_out = int (length (str_out @ sig)) then Inr (str_out @ sig)
                   else Inl AssertFailed)))))"

text \<open>The three failure exits of the parser, named after what each one logs:
  \<open>Truncated\<close> is the label \<^verbatim>\<open>truncated\<close> ("Truncated service descriptor"),
  \<open>TrailingJunk\<close> is "Signature too long on service descriptor", \<open>BadSignature\<close> is
  "Bad signature on service descriptor". All three return \<^verbatim>\<open>NULL\<close>.\<close>

datatype parse_error = Truncated | TrailingJunk | BadSignature

text \<open>The loop over the introduction points: \<open>n\<close> iterations from position \<open>cp\<close>
  (the rest of the buffer up to \<open>end\<close>). It yields the strings and the new \<open>cp\<close>, or
  \<open>None\<close> for \<^verbatim>\<open>goto truncated\<close>.\<close>

fun parse_intro_points :: "nat \<Rightarrow> byte list \<Rightarrow> (byte list list \<times> byte list) option" where
  "parse_intro_points 0 cp = Some ([], cp)"
| "parse_intro_points (Suc n) cp =
     (if length cp < 2 then None
      else case memchr cp 0 of
             None \<Rightarrow> None
           | Some eos \<Rightarrow>
               (case parse_intro_points n (drop (eos + 1) cp) of
                  None \<Rightarrow> None
                | Some (ips, cp') \<Rightarrow> Some (c_str cp # ips, cp')))"

definition rend_parse_service_descriptor ::
  "'k crypto \<Rightarrow> byte list \<Rightarrow> parse_error + 'k rend_service_descriptor" where
  "rend_parse_service_descriptor cr str =
     (if length str < 2 then Inl Truncated
      else
       (let asn1len = unat (ntohs_get_uint16 str);
            cp1 = drop 2 str
        in if length cp1 < asn1len then Inl Truncated
        else
         (case crypto_pk_asn1_decode cr (take asn1len cp1) of
            None \<Rightarrow> Inl Truncated
          | Some k \<Rightarrow>
             (let cp2 = drop asn1len cp1
              in if length cp2 < 4 then Inl Truncated
              else
               (let ts = uint (ntohl_get_uint32 cp2);
                    cp3 = drop 4 cp2
                in if length cp3 < 2 then Inl Truncated
                else
                 (let n = unat (ntohs_get_uint16 cp3);
                      cp4 = drop 2 cp3
                  in (case parse_intro_points n cp4 of
                        None \<Rightarrow> Inl Truncated
                      | Some (ips, cp) \<Rightarrow>
                         (let keylen = crypto_pk_keysize cr k
                          in if int (length cp) < keylen then Inl Truncated
                          else if int (length cp) > keylen then Inl TrailingJunk
                          else if \<not> crypto_pk_public_checksig_digest cr k
                                     (take (length str - length cp) str) cp
                          then Inl BadSignature
                          else Inr \<lparr>pk = k, timestamp = ts, n_intro_points = int n,
                                    intro_points = ips\<rparr>))))))))"

section \<open>Service identifiers\<close>

text \<open>Modelled from the spec: the macros \<^verbatim>\<open>REND_SERVICE_ID_LEN\<close> and \<^verbatim>\<open>BASE32_CHARS\<close>
  are declared in headers that are not part of this file. The spec fixes the length of
  a service ID at 16 characters and its alphabet at the lowercase letters and the
  digits 2 to 7.\<close>

definition REND_SERVICE_ID_LEN :: nat where
  "REND_SERVICE_ID_LEN = 16"

definition BASE32_CHARS :: string where
  "BASE32_CHARS = ''abcdefghijklmnopqrstuvwxyz234567''"

text \<open>\<^verbatim>\<open>rend_get_service_id\<close>: the digest of the key, its first 10 bytes in base32,
  written into a buffer of \<open>REND_SERVICE_ID_LEN + 1\<close> bytes. \<open>None\<close> is the return
  value \<open>-1\<close>.\<close>

definition rend_get_service_id :: "'k crypto \<Rightarrow> 'k \<Rightarrow> string option" where
  "rend_get_service_id cr k =
     (case crypto_pk_get_digest cr k of
        None \<Rightarrow> None
      | Some buf \<Rightarrow> base32_encode cr (REND_SERVICE_ID_LEN + 1) (take 10 buf))"

text \<open>\<^verbatim>\<open>strspn(s, accept)\<close>: the length of the longest prefix of \<open>s\<close> made of
  characters of \<open>accept\<close>.\<close>

definition strspn :: "string \<Rightarrow> string \<Rightarrow> nat" where
  "strspn s accept = length (takeWhile (\<lambda>c. c \<in> set accept) s)"

definition rend_valid_service_id :: "string \<Rightarrow> bool" where
  "rend_valid_service_id query =
     (if length query \<noteq> REND_SERVICE_ID_LEN then False
      else if strspn query BASE32_CHARS \<noteq> REND_SERVICE_ID_LEN then False
      else True)"

section \<open>The descriptor cache\<close>

text \<open>\<^verbatim>\<open>rend_cache_entry_t\<close>: the length of the encoded descriptor, the time it was
  received, its bytes, and its parsed form.\<close>

record 'k rend_cache_entry =
  len :: int
  received :: time_t
  desc :: "byte list"
  parsed :: "'k rend_service_descriptor"

definition REND_CACHE_MAX_AGE :: int where
  "REND_CACHE_MAX_AGE = 24 * 60 * 60"

definition REND_CACHE_MAX_SKEW :: int where
  "REND_CACHE_MAX_SKEW = 90 * 60"

subsection \<open>The string map\<close>

text \<open>Modelled from the spec: \<^verbatim>\<open>strmap_t\<close> and its operations (\<^verbatim>\<open>strmap_new\<close>,
  \<^verbatim>\<open>strmap_get_lc\<close>, \<^verbatim>\<open>strmap_set_lc\<close>, and the iterator with
  \<^verbatim>\<open>strmap_iter_next_rmv\<close>) live in the utility library, outside this file. The spec
  describes a mapping with at most one entry for each key, whose \<open>_lc\<close> operations
  compare keys case-insensitively by storing and looking them up in lowercase, and an
  iterator that visits every entry once and can remove the current one. The map is an
  association list of the entries in iteration order.\<close>

type_synonym 'v strmap = "(string \<times> 'v) list"

definition tor_tolower :: "char \<Rightarrow> char" where
  "tor_tolower c =
     (let n = (of_char c :: nat) in if 65 \<le> n \<and> n \<le> 90 then char_of (n + 32) else c)"

definition tor_strlower :: "string \<Rightarrow> string" where
  "tor_strlower s = map tor_tolower s"

definition strmap_new :: "'v strmap" where
  "strmap_new = []"

definition strmap_get :: "'v strmap \<Rightarrow> string \<Rightarrow> 'v option" where
  "strmap_get m key = map_of m key"

definition strmap_set :: "'v strmap \<Rightarrow> string \<Rightarrow> 'v \<Rightarrow> 'v strmap" where
  "strmap_set m key v = AList.update key v m"

definition strmap_get_lc :: "'v strmap \<Rightarrow> string \<Rightarrow> 'v option" where
  "strmap_get_lc m key = strmap_get m (tor_strlower key)"

definition strmap_set_lc :: "'v strmap \<Rightarrow> string \<Rightarrow> 'v \<Rightarrow> 'v strmap" where
  "strmap_set_lc m key v = strmap_set m (tor_strlower key) v"

text \<open>The data-structure invariant of the map: no key occurs twice.\<close>

definition strmap_wf :: "'v strmap \<Rightarrow> bool" where
  "strmap_wf m = distinct (map fst m)"

subsection \<open>Cache operations\<close>

text \<open>The global \<^verbatim>\<open>rend_cache\<close> is passed to every operation and returned by those
  that change it. The wall clock \<^verbatim>\<open>time(NULL)\<close> is an argument: one value for each
  place where the source reads it.\<close>

type_synonym 'k rend_cache = "'k rend_cache_entry strmap"

definition rend_cache_init :: "'k rend_cache" where
  "rend_cache_init = strmap_new"

text \<open>The loop of \<^verbatim>\<open>rend_cache_clean\<close> over the entries still to be visited:
  \<^verbatim>\<open>strmap_iter_next_rmv\<close> drops the current entry and moves on,
  \<^verbatim>\<open>strmap_iter_next\<close> keeps it.\<close>

fun rend_cache_clean_loop :: "time_t \<Rightarrow> 'k rend_cache \<Rightarrow> 'k rend_cache" where
  "rend_cache_clean_loop cutoff [] = []"
| "rend_cache_clean_loop cutoff ((key, ent) # iter) =
     (if timestamp (parsed ent) < cutoff then rend_cache_clean_loop cutoff iter
      else (key, ent) # rend_cache_clean_loop cutoff iter)"

definition rend_cache_clean :: "time_t \<Rightarrow> 'k rend_cache \<Rightarrow> 'k rend_cache" where
  "rend_cache_clean now cache =
     (let cutoff = now - REND_CACHE_MAX_AGE in rend_cache_clean_loop cutoff cache)"

text \<open>\<^verbatim>\<open>rend_cache_lookup_entry\<close> returns its status and the entry written to
  \<^verbatim>\<open>*e\<close>; \<^verbatim>\<open>rend_cache_lookup_desc\<close> returns its status and the pair written to
  \<^verbatim>\<open>*desc\<close> and \<^verbatim>\<open>*desc_len\<close>.\<close>

definition rend_cache_lookup_entry ::
  "'k rend_cache \<Rightarrow> string \<Rightarrow> int \<times> 'k rend_cache_entry option" where
  "rend_cache_lookup_entry cache query =
     (if \<not> rend_valid_service_id query then (-1, None)
      else (case strmap_get_lc cache query of
              None \<Rightarrow> (0, None)
            | Some e \<Rightarrow> (1, Some e)))"

definition rend_cache_lookup_desc ::
  "'k rend_cache \<Rightarrow> string \<Rightarrow> int \<times> (byte list \<times> int) option" where
  "rend_cache_lookup_desc cache query =
     (case rend_cache_lookup_entry cache query of
        (r, None) \<Rightarrow> (r, None)
      | (r, Some e) \<Rightarrow> (if r \<le> 0 then (r, None) else (1, Some (desc e, len e))))"

text \<open>\<^verbatim>\<open>memcmp(a, b, n) == 0\<close>: the first \<open>n\<close> bytes agree.\<close>

definition memcmp_eq :: "byte list \<Rightarrow> byte list \<Rightarrow> nat \<Rightarrow> bool" where
  "memcmp_eq a b n = (take n a = take n b)"

text \<open>\<^verbatim>\<open>rend_cache_store\<close>. \<open>now\<close> is the clock read before the freshness checks,
  \<open>now'\<close> the clock read when \<open>received\<close> is set. An entry found in the map is changed
  through its pointer in the source; here the changed entry is put back under its key.\<close>

definition rend_cache_store ::
  "'k crypto \<Rightarrow> time_t \<Rightarrow> time_t \<Rightarrow> 'k rend_cache \<Rightarrow> byte list \<Rightarrow> int \<times> 'k rend_cache" where
  "rend_cache_store cr now now' cache d =
     (let desc_len = int (length d) in
      (case rend_parse_service_descriptor cr d of
         Inl err \<Rightarrow> (-1, cache)
       | Inr p \<Rightarrow>
          (case rend_get_service_id cr (pk p) of
             None \<Rightarrow> (-1, cache)
           | Some query \<Rightarrow>
              (if timestamp p < now - REND_CACHE_MAX_AGE then (-1, cache)
               else if timestamp p > now + REND_CACHE_MAX_SKEW then (-1, cache)
               else
                (case strmap_get_lc cache query of
                   Some e \<Rightarrow>
                    (if timestamp (parsed e) > timestamp p then (0, cache)
                     else if len e = desc_len \<and> memcmp_eq d (desc e) (nat desc_len)
                     then (0, strmap_set_lc cache query (e\<lparr>received := now'\<rparr>))
                     else (0, strmap_set_lc cache query
                               (e\<lparr>received := now', parsed := p, len := desc_len, desc := d\<rparr>)))
                 | None \<Rightarrow>
                    (0, strmap_set_lc cache query
                          \<lparr>len = desc_len, received = now', desc = d, parsed = p\<rparr>))))))"

section \<open>Vocabulary of the properties\<close>

text \<open>A descriptor that the wire format can represent: the timestamp fits the unsigned
  32-bit field, the count is the length of the sequence and fits the unsigned 16-bit
  field, and no introduction point name contains a NUL byte.\<close>

definition wire_representable :: "'k rend_service_descriptor \<Rightarrow> bool" where
  "wire_representable d =
     (0 \<le> timestamp d \<and> timestamp d < 2 ^ 32
      \<and> n_intro_points d = int (length (intro_points d)) \<and> n_intro_points d < 2 ^ 16
      \<and> (\<forall>ip \<in> set (intro_points d). 0 \<notin> set ip))"

text \<open>What the codec needs from the crypto layer for a public key \<open>pub\<close> and the
  signing key \<open>key\<close> that matches it: the key size is positive, the DER encoding of
  \<open>pub\<close> fits a 16-bit length and decodes to \<open>pub\<close>, and every signature made with
  \<open>key\<close> verifies under \<open>pub\<close>.\<close>

definition crypto_contract :: "'k crypto \<Rightarrow> 'k \<Rightarrow> 'k \<Rightarrow> bool" where
  "crypto_contract cr pub key =
     (0 < crypto_pk_keysize cr pub
      \<and> (\<forall>cap a. crypto_pk_asn1_encode cr pub cap = Some a
            \<longrightarrow> length a < 2 ^ 16 \<and> crypto_pk_asn1_decode cr a = Some pub)
      \<and> (\<forall>data sig. crypto_pk_private_sign_digest cr key data = Some sig
            \<longrightarrow> crypto_pk_public_checksig_digest cr pub data sig))"

text \<open>An entry as \<^verbatim>\<open>rend_cache_store\<close> creates it: \<open>parsed\<close> is the parse of the
  stored bytes and \<open>len\<close> is their number.\<close>

definition entry_consistent :: "'k crypto \<Rightarrow> 'k rend_cache_entry \<Rightarrow> bool" where
  "entry_consistent cr e =
     (rend_parse_service_descriptor cr (desc e) = Inr (parsed e)
      \<and> len e = int (length (desc e)))"

definition cache_consistent :: "'k crypto \<Rightarrow> 'k rend_cache \<Rightarrow> bool" where
  "cache_consistent cr cache = (\<forall>(key, e) \<in> set cache. entry_consistent cr e)"

text \<open>The key under which \<^verbatim>\<open>rend_cache_store\<close> files a byte string, if it parses and
  its service ID can be computed; and the timestamp it carries.\<close>

definition desc_service_id :: "'k crypto \<Rightarrow> byte list \<Rightarrow> string option" where
  "desc_service_id cr d =
     (case rend_parse_service_descriptor cr d of
        Inl err \<Rightarrow> None
      | Inr p \<Rightarrow> map_option tor_strlower (rend_get_service_id cr (pk p)))"

definition desc_timestamp :: "'k crypto \<Rightarrow> byte list \<Rightarrow> time_t option" where
  "desc_timestamp cr d =
     (case rend_parse_service_descriptor cr d of
        Inl err \<Rightarrow> None
      | Inr p \<Rightarrow> Some (timestamp p))"

definition cached_timestamp :: "'k rend_cache \<Rightarrow> string \<Rightarrow> time_t option" where
  "cached_timestamp cache key = map_option (\<lambda>e. timestamp (parsed e)) (strmap_get cache key)"

text \<open>A sequence of calls of \<^verbatim>\<open>rend_cache_store\<close>, each with its two clock readings
  and its bytes: the return values in order, and the cache at the end.\<close>

type_synonym store_call = "time_t \<times> time_t \<times> byte list"

fun rend_cache_store_seq ::
  "'k crypto \<Rightarrow> 'k rend_cache \<Rightarrow> store_call list \<Rightarrow> int list \<times> 'k rend_cache" where
  "rend_cache_store_seq cr cache [] = ([], cache)"
| "rend_cache_store_seq cr cache ((now, now', d) # calls) =
     (case rend_cache_store cr now now' cache d of
        (r, cache') \<Rightarrow>
          (case rend_cache_store_seq cr cache' calls of
             (rs, cache'') \<Rightarrow> (r # rs, cache'')))"

text \<open>The timestamps of the descriptors whose call returned 0.\<close>

fun accepted_timestamps :: "'k crypto \<Rightarrow> store_call list \<Rightarrow> int list \<Rightarrow> time_t list" where
  "accepted_timestamps cr ((now, now', d) # calls) (r # rs) =
     (case desc_timestamp cr d of
        Some t \<Rightarrow> (if r = 0 then t # accepted_timestamps cr calls rs
                   else accepted_timestamps cr calls rs)
      | None \<Rightarrow> accepted_timestamps cr calls rs)"
| "accepted_timestamps cr calls rs = []"

definition max_timestamp :: "time_t option \<Rightarrow> time_t \<Rightarrow> time_t option" where
  "max_timestamp old t = (case old of None \<Rightarrow> Some t | Some t0 \<Rightarrow> Some (max t0 t))"

definition isupper :: "char \<Rightarrow> bool" where
  "isupper c = (65 \<le> (of_char c :: nat) \<and> (of_char c :: nat) \<le> 90)"

section \<open>A small crypto layer to run the model\<close>

text \<open>Keys are single bytes and the key size is 2. The DER form of key \<open>k\<close> is the two
  bytes \<open>0x30, k\<close>; a signature is \<open>k\<close> followed by the sum of the signed bytes; the
  digest repeats \<open>k\<close> twenty times; the base32 text is sixteen times the letter number
  \<open>k mod 26\<close>. The second layer differs only in that its digest fails.\<close>

definition example_crypto :: "byte crypto" where
  "example_crypto =
     \<lparr>crypto_pk_keysize = (\<lambda>k. 2),
      crypto_pk_asn1_encode = (\<lambda>k cap. if cap < 2 then None else Some [0x30, k]),
      crypto_pk_asn1_decode =
        (\<lambda>bs. case bs of [t, k] \<Rightarrow> if t = 0x30 then Some k else None | _ \<Rightarrow> None),
      crypto_pk_private_sign_digest = (\<lambda>k data. Some [k, sum_list data]),
      crypto_pk_public_checksig_digest = (\<lambda>k data sig. sig = [k, sum_list data]),
      crypto_pk_get_digest = (\<lambda>k. Some (replicate 20 k)),
      base32_encode =
        (\<lambda>cap bs. case bs of [] \<Rightarrow> None
                   | b # _ \<Rightarrow> Some (replicate 16 (char_of (97 + unat b mod 26))))\<rparr>"

definition failing_digest_crypto :: "byte crypto" where
  "failing_digest_crypto = example_crypto\<lparr>crypto_pk_get_digest := (\<lambda>k. None)\<rparr>"

text \<open>The descriptor of key 7 signed at time 1000000 with the introduction points
  \<open>alice\<close> and \<open>bob\<close>, and its encoding; a second descriptor of the same key and time
  with the single introduction point \<open>bob\<close>, and its encoding.\<close>

definition alice :: "byte list" where
  "alice = [0x61, 0x6C, 0x69, 0x63, 0x65]"

definition bob :: "byte list" where
  "bob = [0x62, 0x6F, 0x62]"

definition example_desc :: "byte rend_service_descriptor" where
  "example_desc = \<lparr>pk = 7, timestamp = 1000000, n_intro_points = 2,
                    intro_points = [alice, bob]\<rparr>"

definition example_bytes :: "byte list" where
  "example_bytes = [0, 2, 0x30, 7, 0, 0x0F, 0x42, 0x40, 0, 2,
                    0x61, 0x6C, 0x69, 0x63, 0x65, 0, 0x62, 0x6F, 0x62, 0, 7, 253]"

definition example_desc2 :: "byte rend_service_descriptor" where
  "example_desc2 = \<lparr>pk = 7, timestamp = 1000000, n_intro_points = 1,
                     intro_points = [bob]\<rparr>"

definition example_bytes2 :: "byte list" where
  "example_bytes2 = [0, 2, 0x30, 7, 0, 0x0F, 0x42, 0x40, 0, 1,
                     0x62, 0x6F, 0x62, 0, 7, 254]"

definition example_entry :: "byte rend_cache_entry" where
  "example_entry = \<lparr>len = 22, received = 1000500, desc = example_bytes,
                     parsed = example_desc\<rparr>"

text \<open>A third descriptor of key 7, signed ten seconds later with the single
  introduction point \<open>alice\<close>; the service ID of key 7; the cache that holds the first
  descriptor, received at time 1000500.\<close>

definition example_desc3 :: "byte rend_service_descriptor" where
  "example_desc3 = \<lparr>pk = 7, timestamp = 1000010, n_intro_points = 1,
                     intro_points = [alice]\<rparr>"

definition example_bytes3 :: "byte list" where
  "example_bytes3 = [0, 2, 0x30, 7, 0, 0x0F, 0x42, 0x4A, 0, 1,
                     0x61, 0x6C, 0x69, 0x63, 0x65, 0, 7, 211]"

definition example_id :: string where
  "example_id = ''hhhhhhhhhhhhhhhh''"

definition example_cache :: "byte rend_cache" where
  "example_cache = [(example_id, example_entry)]"

text \<open>Two calls for the service of key 7: the third descriptor at time 1000500, then
  the first one at time 1000600; and a cache with the entry of the service and a second
  entry whose descriptor was signed at time 900000.\<close>

definition example_calls :: "store_call list" where
  "example_calls = [(1000500, 1000500, example_bytes3), (1000600, 1000600, example_bytes)]"

definition example_old_entry :: "byte rend_cache_entry" where
  "example_old_entry = example_entry\<lparr>parsed := example_desc\<lparr>timestamp := 900000\<rparr>\<rparr>"

definition example_cache2 :: "byte rend_cache" where
  "example_cache2 = [(''aaaaaaaaaaaaaaaa'', example_old_entry), (example_id, example_entry)]"

section \<open>Facts about the helpers\<close>

lemma get_set_uint16: "ntohs_get_uint16 (set_uint16_htons x @ rest) = x"
  unfolding ntohs_get_uint16_def set_uint16_htons_def
  by (rule bit_word_eqI) (auto simp add: bit_simps)

lemma get_set_uint32: "ntohl_get_uint32 (set_uint32_htonl x @ rest) = x"
proof (rule bit_word_eqI)
  fix n assume n: "n < LENGTH(32)"
  have c: "n < 8 \<or> (8 \<le> n \<and> n < 16) \<or> (16 \<le> n \<and> n < 24) \<or> (24 \<le> n \<and> n < 32)"
    using n by auto
  show "bit (ntohl_get_uint32 (set_uint32_htonl x @ rest)) n = bit x n"
    unfolding ntohl_get_uint32_def set_uint32_htonl_def
    using c by (auto simp add: bit_simps)
qed

lemma length_set_uint16 [simp]: "length (set_uint16_htons x) = 2"
  by (simp add: set_uint16_htons_def)

lemma length_set_uint32 [simp]: "length (set_uint32_htonl x) = 4"
  by (simp add: set_uint32_htonl_def)

lemma memchr_append_hit: "c \<notin> set s \<Longrightarrow> memchr (s @ c # r) c = Some (length s)"
  by (induction s) auto

lemma c_str_strcpy: "0 \<notin> set s \<Longrightarrow> c_str (s @ 0 # r) = s"
  by (induction s) (auto simp: c_str_def)

lemma c_str_id: "0 \<notin> set s \<Longrightarrow> c_str s = s"
  by (induction s) (auto simp: c_str_def)

lemma parse_intro_points_strcpy:
  "\<forall>ip \<in> set ips. 0 \<notin> set ip \<Longrightarrow> rest \<noteq> [] \<Longrightarrow>
   parse_intro_points (length ips) (concat (map strcpy ips) @ rest) = Some (ips, rest)"
proof (induction ips)
  case Nil
  then show ?case by simp
next
  case (Cons ip ips)
  have nz: "0 \<notin> set ip" using Cons.prems by simp
  have ih: "parse_intro_points (length ips) (concat (map strcpy ips) @ rest) = Some (ips, rest)"
    using Cons by simp
  let ?tl = "concat (map strcpy ips) @ rest"
  have tl_ne: "?tl \<noteq> []" using Cons.prems by simp
  have shape: "concat (map strcpy (ip # ips)) @ rest = ip @ 0 # ?tl"
    using nz by (simp add: strcpy_def c_str_id)
  have len: "\<not> length (ip @ 0 # ?tl) < 2"
    using tl_ne by (cases ?tl) auto
  show ?case
    unfolding shape using len ih nz
    by (simp add: memchr_append_hit c_str_strcpy)
qed

lemma sum_strlen:
  "\<forall>ip \<in> set ips. 0 \<notin> set ip \<Longrightarrow>
   sum_list (map (\<lambda>ip. int (strlen ip) + 1) ips) = int (length (concat (map strcpy ips)))"
  by (induction ips) (auto simp: strlen_def strcpy_def)

lemma get_uint16_append: "2 \<le> length a \<Longrightarrow> ntohs_get_uint16 (a @ b) = ntohs_get_uint16 a"
  by (auto simp: ntohs_get_uint16_def nth_append)

lemma get_uint32_append: "4 \<le> length a \<Longrightarrow> ntohl_get_uint32 (a @ b) = ntohl_get_uint32 a"
  by (auto simp: ntohl_get_uint32_def nth_append)

lemma memchr_less: "memchr a c = Some i \<Longrightarrow> i < length a"
  by (induction a arbitrary: i) (auto split: if_splits option.splits)

lemma memchr_append: "memchr a c = Some i \<Longrightarrow> memchr (a @ b) c = Some i"
  by (induction a arbitrary: i) (auto split: if_splits option.splits)

lemma memchr_mem: "memchr a c = Some i \<Longrightarrow> c \<in> set a"
  by (induction a arbitrary: i) (auto split: if_splits option.splits)

lemma c_str_append: "0 \<in> set a \<Longrightarrow> c_str (a @ b) = c_str a"
  unfolding c_str_def by (induction a) auto

lemma parse_intro_points_append:
  "parse_intro_points n cp = Some (ips, rest) \<Longrightarrow>
   parse_intro_points n (cp @ junk) = Some (ips, rest @ junk)"
proof (induction n arbitrary: cp ips)
  case 0
  then show ?case by simp
next
  case (Suc n)
  from Suc.prems obtain eos ips' where
    len: "\<not> length cp < 2" and eos: "memchr cp 0 = Some eos"
    and rec: "parse_intro_points n (drop (eos + 1) cp) = Some (ips', rest)"
    and ips: "ips = c_str cp # ips'"
    by (auto split: if_splits option.splits)
  have lt: "eos < length cp" using eos by (rule memchr_less)
  have "parse_intro_points n (drop (eos + 1) cp @ junk) = Some (ips', rest @ junk)"
    using rec by (rule Suc.IH)
  then show ?case
    using len lt ips by (simp add: memchr_append [OF eos] c_str_append [OF memchr_mem [OF eos]])
qed

lemma parse_intro_points_prefix:
  "parse_intro_points n (x @ t) = Some (ips, rest) \<Longrightarrow>
   parse_intro_points n x = None
   \<or> (\<exists>rest'. parse_intro_points n x = Some (ips, rest') \<and> rest = rest' @ t)"
proof (induction n arbitrary: x ips)
  case 0
  then show ?case by simp
next
  case (Suc n)
  show ?case
  proof (cases "length x < 2 \<or> memchr x 0 = None")
    case True
    then show ?thesis by auto
  next
    case False
    then obtain eos where len: "\<not> length x < 2" and eos: "memchr x 0 = Some eos"
      by auto
    have lt: "eos < length x" using eos by (rule memchr_less)
    have eos': "memchr (x @ t) 0 = Some eos" using eos by (rule memchr_append)
    have cs: "c_str (x @ t) = c_str x" using memchr_mem [OF eos] by (rule c_str_append)
    from Suc.prems eos' lt cs obtain ips' where
      rec: "parse_intro_points n (drop (eos + 1) x @ t) = Some (ips', rest)"
      and ips: "ips = c_str x # ips'"
      by (auto split: if_splits option.splits)
    from Suc.IH [OF rec] show ?thesis
      using len eos ips by auto
  qed
qed

lemma replicate_numeral_unfold: "replicate (numeral k) x = x # replicate (pred_numeral k) x"
  by (simp add: numeral_eq_Suc)

lemma parse_intro_points_numeral:
  "parse_intro_points (numeral k) cp =
     (if length cp < 2 then None
      else case memchr cp 0 of
             None \<Rightarrow> None
           | Some eos \<Rightarrow>
               (case parse_intro_points (pred_numeral k) (drop (eos + 1) cp) of
                  None \<Rightarrow> None
                | Some (ips, cp') \<Rightarrow> Some (c_str cp # ips, cp')))"
  by (simp add: numeral_eq_Suc)

subsection \<open>The examples, evaluated\<close>

lemmas codec_defs = rend_encode_service_descriptor_def rend_parse_service_descriptor_def
  example_crypto_def example_desc_def example_bytes_def example_desc2_def example_bytes2_def
  alice_def bob_def set_uint16_htons_def set_uint32_htonl_def ntohs_get_uint16_def
  ntohl_get_uint32_def strcpy_def strlen_def c_str_def Let_def

lemma example_encode:
  "rend_encode_service_descriptor example_crypto example_desc 7 = Inr example_bytes"
  by (simp add: codec_defs)

lemma example_parse:
  "rend_parse_service_descriptor example_crypto example_bytes = Inr example_desc"
  by (simp add: codec_defs parse_intro_points_numeral)

lemma example_encode2:
  "rend_encode_service_descriptor example_crypto example_desc2 7 = Inr example_bytes2"
  by (simp add: codec_defs)

lemma example_parse2:
  "rend_parse_service_descriptor example_crypto example_bytes2 = Inr example_desc2"
  by (simp add: codec_defs parse_intro_points_numeral)

lemma example_service_id:
  "rend_get_service_id example_crypto 7 = Some ''hhhhhhhhhhhhhhhh''"
  by (simp add: rend_get_service_id_def example_crypto_def REND_SERVICE_ID_LEN_def
      replicate_numeral_unfold char_of_def bit_0)

lemma example_wire_representable: "wire_representable example_desc"
  by (simp add: wire_representable_def example_desc_def alice_def bob_def)

lemma example_crypto_contract: "crypto_contract example_crypto 7 7"
  by (simp add: crypto_contract_def example_crypto_def)

section \<open>The codec: round trip, truncation, trailing bytes\<close>

text \<open>
  Claim C1, as amended. If \<^verbatim>\<open>rend_encode_service_descriptor\<close> succeeds on a descriptor
  whose timestamp lies in the range of the 32-bit wire field, whose count is the length of
  its introduction point sequence and fits 16 bits, and whose introduction point names
  contain no NUL byte, with a signing key that matches the descriptor's public key, then
  \<^verbatim>\<open>rend_parse_service_descriptor\<close> succeeds on the output and returns a descriptor
  equal to the original: the same key, timestamp, count, and introduction points in the
  same order.
\<close>

theorem encode_parse_roundtrip:
  assumes enc: "rend_encode_service_descriptor cr d key = Inr E"
    and wr: "wire_representable d"
    and cc: "crypto_contract cr (pk d) key"
  shows "rend_parse_service_descriptor cr E = Inr d"
proof -
  let ?keylen = "crypto_pk_keysize cr (pk d)"
  from enc obtain buf where buf: "crypto_pk_asn1_encode cr (pk d) (?keylen * 2) = Some buf"
    by (auto simp: rend_encode_service_descriptor_def Let_def split: option.splits)
  let ?ips = "intro_points d"
  have n: "n_intro_points d = int (length ?ips)" and n16: "length ?ips < 2 ^ 16"
    and ts: "0 \<le> timestamp d" "timestamp d < 2 ^ 32"
    and nul: "\<forall>ip \<in> set ?ips. 0 \<notin> set ip"
    using wr by (auto simp: wire_representable_def)
  let ?body = "set_uint16_htons (word_of_int (int (length buf))) @ buf
                 @ set_uint32_htonl (word_of_int (timestamp d))
                 @ set_uint16_htons (word_of_int (n_intro_points d))
                 @ concat (map strcpy ?ips)"
  from enc buf n obtain sig where
    sig: "crypto_pk_private_sign_digest cr key ?body = Some sig"
    and E: "E = ?body @ sig"
    and siglen: "2 + int (length buf) + 4 + 2 + ?keylen
                   + sum_list (map (\<lambda>ip. int (strlen ip) + 1) ?ips) = int (length (?body @ sig))"
    by (auto simp: rend_encode_service_descriptor_def Let_def split: option.splits if_splits)
  have keylen: "int (length sig) = ?keylen"
    using siglen by (simp add: sum_strlen [OF nul])
  have sig_ne: "sig \<noteq> []" using keylen cc by (auto simp: crypto_contract_def)
  have buf16: "length buf < 2 ^ 16" and dec: "crypto_pk_asn1_decode cr buf = Some (pk d)"
    using cc buf by (auto simp: crypto_contract_def)
  have ver: "crypto_pk_public_checksig_digest cr (pk d) ?body sig"
    using cc sig by (auto simp: crypto_contract_def)
  have a1: "unat (word_of_nat (length buf) :: 16 word) = length buf"
    using buf16 by (simp add: unat_of_nat)
  have a2: "uint (word_of_int (timestamp d) :: 32 word) = timestamp d"
    using ts by (simp add: uint_word_of_int)
  have a3: "unat (word_of_nat (length ?ips) :: 16 word) = length ?ips"
    using n16 by (simp add: unat_of_nat)
  have d: "d = \<lparr>pk = pk d, timestamp = timestamp d, n_intro_points = int (length ?ips),
                 intro_points = ?ips\<rparr>"
    using n by simp
  have pip: "parse_intro_points (length ?ips) (concat (map strcpy ?ips) @ sig) = Some (?ips, sig)"
    using nul sig_ne by (rule parse_intro_points_strcpy)
  show ?thesis
    unfolding E rend_parse_service_descriptor_def
    using dec ver keylen n d
    by (simp add: get_set_uint16 get_set_uint32 a1 a2 a3 pip Let_def)
qed

theorem encode_parse_roundtrip_witness:
  "rend_encode_service_descriptor example_crypto example_desc 7 = Inr example_bytes
   \<and> wire_representable example_desc
   \<and> crypto_contract example_crypto (pk example_desc) 7
   \<and> rend_parse_service_descriptor example_crypto example_bytes = Inr example_desc"
proof -
  have h3: "crypto_contract example_crypto (pk example_desc) 7"
    using example_crypto_contract by (simp add: example_desc_def)
  show ?thesis
    using example_encode example_wire_representable h3
      encode_parse_roundtrip [OF example_encode example_wire_representable h3]
    by simp
qed

text \<open>
  Claim C1, as stated, fails for a timestamp outside the 32-bit field: the descriptor
  with timestamp \<open>2^32 + 1000000\<close> encodes to the same bytes as the one with timestamp
  \<open>1000000\<close>, and parsing returns the latter.
\<close>

theorem roundtrip_timestamp_counterexample:
  "rend_encode_service_descriptor example_crypto (example_desc\<lparr>timestamp := 4295967296\<rparr>) 7
     = Inr example_bytes
   \<and> rend_parse_service_descriptor example_crypto example_bytes = Inr example_desc
   \<and> example_desc \<noteq> example_desc\<lparr>timestamp := 4295967296\<rparr>"
proof -
  have "rend_encode_service_descriptor example_crypto (example_desc\<lparr>timestamp := 4295967296\<rparr>) 7
          = Inr example_bytes"
    by (simp add: codec_defs)
  moreover have "example_desc \<noteq> example_desc\<lparr>timestamp := 4295967296\<rparr>"
    by (simp add: example_desc_def)
  ultimately show ?thesis using example_parse by simp
qed

lemma parse_ok_prefix:
  assumes ok: "rend_parse_service_descriptor cr (x @ t) = Inr d" and t: "t \<noteq> []"
  shows "rend_parse_service_descriptor cr x = Inl Truncated"
proof (cases "length x < 2")
  case True
  then show ?thesis by (simp add: rend_parse_service_descriptor_def)
next
  case l0: False
  let ?a = "unat (ntohs_get_uint16 x)"
  have g1: "ntohs_get_uint16 (x @ t) = ntohs_get_uint16 x"
    using l0 by (simp add: get_uint16_append)
  have e1: "drop 2 (x @ t) = drop 2 x @ t" using l0 by simp
  show ?thesis
  proof (cases "length (drop 2 x) < ?a")
    case True
    then show ?thesis using l0 by (simp add: rend_parse_service_descriptor_def Let_def)
  next
    case l1: False
    have e5: "take ?a (drop 2 x @ t) = take ?a (drop 2 x)" using l1 by simp
    have e2: "drop ?a (drop 2 x @ t) = drop ?a (drop 2 x) @ t" using l1 by simp
    let ?cp2 = "drop ?a (drop 2 x)"
    have ll: "\<not> length (x @ t) < 2" "\<not> length (drop 2 x @ t) < ?a"
      using l0 l1 by simp_all
    from ok ll obtain k where k: "crypto_pk_asn1_decode cr (take ?a (drop 2 x)) = Some k"
      unfolding rend_parse_service_descriptor_def Let_def g1 e1 e2 e5
      by (auto split: if_splits option.splits)
    show ?thesis
    proof (cases "length ?cp2 < 4")
      case True
      then show ?thesis using l0 l1 k by (simp add: rend_parse_service_descriptor_def Let_def)
    next
      case l2: False
      let ?cp3 = "drop 4 ?cp2"
      have e3: "drop 4 (?cp2 @ t) = ?cp3 @ t" using l2 by simp
      show ?thesis
      proof (cases "length ?cp3 < 2")
        case True
        then show ?thesis using l0 l1 k l2
          by (simp add: rend_parse_service_descriptor_def Let_def)
      next
        case l3: False
        let ?n = "unat (ntohs_get_uint16 ?cp3)"
        have g3: "ntohs_get_uint16 (?cp3 @ t) = ntohs_get_uint16 ?cp3"
          using l3 by (simp add: get_uint16_append)
        have e4: "drop 2 (?cp3 @ t) = drop 2 ?cp3 @ t" using l3 by simp
        have ll2: "\<not> length (?cp2 @ t) < 4" "\<not> length (?cp3 @ t) < 2"
          using l2 l3 by simp_all
        from ok ll ll2 k obtain ips cp where
          pip: "parse_intro_points ?n (drop 2 ?cp3 @ t) = Some (ips, cp)"
          and kl: "int (length cp) = crypto_pk_keysize cr k"
          unfolding rend_parse_service_descriptor_def Let_def g1 e1 e2 e3 e4 e5 g3
          by (auto split: if_splits option.splits)
        from parse_intro_points_prefix [OF pip] show ?thesis
        proof
          assume "parse_intro_points ?n (drop 2 ?cp3) = None"
          then show ?thesis using l0 l1 k l2 l3
            by (simp add: rend_parse_service_descriptor_def Let_def)
        next
          assume "\<exists>rest'. parse_intro_points ?n (drop 2 ?cp3) = Some (ips, rest') \<and> cp = rest' @ t"
          then obtain rest' where r: "parse_intro_points ?n (drop 2 ?cp3) = Some (ips, rest')"
            and cp: "cp = rest' @ t" by blast
          have "int (length rest') < crypto_pk_keysize cr k"
            using kl cp t by (cases t) auto
          then show ?thesis using l0 l1 k l2 l3 r
            by (simp add: rend_parse_service_descriptor_def Let_def)
        qed
      qed
    qed
  qed
qed

text \<open>
  Claim C6. For every byte string \<open>E\<close> that parses and verifies as a descriptor and every
  \<open>m\<close> smaller than its length, parsing the first \<open>m\<close> bytes of \<open>E\<close> fails at the
  \<^verbatim>\<open>truncated\<close> exit: no strict prefix parses, and none fails in another way.
\<close>

theorem parse_truncated_prefix:
  assumes ok: "rend_parse_service_descriptor cr E = Inr d" and m: "m < length E"
  shows "rend_parse_service_descriptor cr (take m E) = Inl Truncated"
proof -
  have "rend_parse_service_descriptor cr (take m E @ drop m E) = Inr d" using ok by simp
  moreover have "drop m E \<noteq> []" using m by simp
  ultimately show ?thesis by (rule parse_ok_prefix)
qed

theorem parse_truncated_prefix_witness:
  "rend_parse_service_descriptor example_crypto example_bytes = Inr example_desc
   \<and> 17 < length example_bytes
   \<and> rend_parse_service_descriptor example_crypto (take 17 example_bytes) = Inl Truncated"
proof -
  have m: "17 < length example_bytes" by (simp add: example_bytes_def)
  show ?thesis
    using example_parse m parse_truncated_prefix [OF example_parse m] by simp
qed

text \<open>
  Claim C7. For every byte string that parses and verifies as a descriptor, the same
  bytes followed by one or more further bytes fail to parse at the "signature too long"
  exit (\<open>TrailingJunk\<close>): what follows the introduction points must be exactly as long
  as the key size.
\<close>

theorem parse_trailing_junk:
  assumes ok: "rend_parse_service_descriptor cr E = Inr d" and junk: "junk \<noteq> []"
  shows "rend_parse_service_descriptor cr (E @ junk) = Inl TrailingJunk"
proof -
  let ?a = "unat (ntohs_get_uint16 E)"
  from ok have l0: "2 \<le> length E"
    by (auto simp: rend_parse_service_descriptor_def split: if_splits)
  from ok l0 have l1: "?a \<le> length (drop 2 E)"
    by (auto simp: rend_parse_service_descriptor_def Let_def split: if_splits)
  from ok l0 l1 obtain k where k: "crypto_pk_asn1_decode cr (take ?a (drop 2 E)) = Some k"
    by (auto simp: rend_parse_service_descriptor_def Let_def split: if_splits option.splits)
  let ?cp2 = "drop ?a (drop 2 E)"
  from ok l0 l1 k have l2: "4 \<le> length ?cp2"
    by (auto simp: rend_parse_service_descriptor_def Let_def split: if_splits)
  let ?cp3 = "drop 4 ?cp2"
  from ok l0 l1 k l2 have l3: "2 \<le> length ?cp3"
    by (auto simp: rend_parse_service_descriptor_def Let_def split: if_splits)
  let ?n = "unat (ntohs_get_uint16 ?cp3)"
  from ok l0 l1 k l2 l3 obtain ips cp where
    pip: "parse_intro_points ?n (drop 2 ?cp3) = Some (ips, cp)"
    and kl: "int (length cp) = crypto_pk_keysize cr k"
    by (auto simp: rend_parse_service_descriptor_def Let_def split: if_splits option.splits)
  have pip': "parse_intro_points ?n (drop 2 ?cp3 @ junk) = Some (ips, cp @ junk)"
    using pip by (rule parse_intro_points_append)
  have e1: "drop 2 (E @ junk) = drop 2 E @ junk" using l0 by simp
  have e2: "drop ?a (drop 2 E @ junk) = ?cp2 @ junk" using l1 by simp
  have e3: "drop 4 (?cp2 @ junk) = ?cp3 @ junk" using l2 by simp
  have e4: "drop 2 (?cp3 @ junk) = drop 2 ?cp3 @ junk" using l3 by simp
  have e5: "take ?a (drop 2 E @ junk) = take ?a (drop 2 E)" using l1 by simp
  have g1: "ntohs_get_uint16 (E @ junk) = ntohs_get_uint16 E"
    using l0 by (rule get_uint16_append)
  have g3: "ntohs_get_uint16 (?cp3 @ junk) = ntohs_get_uint16 ?cp3"
    using l3 by (rule get_uint16_append)
  have ll: "\<not> length (E @ junk) < 2" "\<not> length (drop 2 E @ junk) < ?a"
    "\<not> length (?cp2 @ junk) < 4" "\<not> length (?cp3 @ junk) < 2"
    using l0 l1 l2 l3 by simp_all
  have big: "int (length (cp @ junk)) > crypto_pk_keysize cr k"
    using kl junk by (cases junk) auto
  show ?thesis
    unfolding rend_parse_service_descriptor_def Let_def g1 e1 e2 e3 e4 e5 g3
    using ll k pip' big by simp
qed



theorem parse_trailing_junk_witness:
  "rend_parse_service_descriptor example_crypto example_bytes = Inr example_desc
   \<and> [0x2A :: byte] \<noteq> []
   \<and> rend_parse_service_descriptor example_crypto (example_bytes @ [0x2A]) = Inl TrailingJunk"
proof -
  have j: "[0x2A :: byte] \<noteq> []" by simp
  show ?thesis
    using example_parse j parse_trailing_junk [OF example_parse j] by simp
qed

section \<open>The cache\<close>

subsection \<open>The string map and the shape of a store\<close>

lemma strmap_get_set:
  "strmap_get (strmap_set m k v) k' = (if k' = k then Some v else strmap_get m k')"
  by (simp add: strmap_get_def strmap_set_def update_conv')

lemma strmap_get_lc_set_lc:
  "strmap_get_lc (strmap_set_lc m q v) q = Some v"
  by (simp add: strmap_get_lc_def strmap_set_lc_def strmap_get_set)

lemma strmap_get_set_lc_other:
  "k \<noteq> tor_strlower q \<Longrightarrow> strmap_get (strmap_set_lc m q v) k = strmap_get m k"
  by (simp add: strmap_set_lc_def strmap_get_set)

lemma strmap_wf_set: "strmap_wf m \<Longrightarrow> strmap_wf (strmap_set m k v)"
  by (simp add: strmap_wf_def strmap_set_def distinct_update)

lemma entry_overwrite:
  "(e :: 'k rend_cache_entry)\<lparr>received := r, parsed := p, len := n, desc := d\<rparr>
     = \<lparr>len = n, received = r, desc = d, parsed = p\<rparr>"
  by (cases e) simp

text \<open>The body of store once the descriptor has parsed and its service ID is known.\<close>

lemma rend_cache_store_parsed:
  assumes "rend_parse_service_descriptor cr d = Inr p"
    and "rend_get_service_id cr (pk p) = Some q"
  shows "rend_cache_store cr now now' cache d =
     (if timestamp p < now - REND_CACHE_MAX_AGE then (-1, cache)
      else if timestamp p > now + REND_CACHE_MAX_SKEW then (-1, cache)
      else
       (case strmap_get_lc cache q of
          Some e \<Rightarrow>
           (if timestamp (parsed e) > timestamp p then (0, cache)
            else if len e = int (length d) \<and> memcmp_eq d (desc e) (length d)
            then (0, strmap_set_lc cache q (e\<lparr>received := now'\<rparr>))
            else (0, strmap_set_lc cache q
                      \<lparr>len = int (length d), received = now', desc = d, parsed = p\<rparr>))
        | None \<Rightarrow>
           (0, strmap_set_lc cache q
                 \<lparr>len = int (length d), received = now', desc = d, parsed = p\<rparr>)))"
  using assms by (simp add: rend_cache_store_def Let_def entry_overwrite split: option.splits)

lemma memcmp_eq_same_length:
  "length a = length b \<Longrightarrow> memcmp_eq a b (length a) = (a = b)"
  by (simp add: memcmp_eq_def)


subsection \<open>The examples, run through the cache\<close>

lemma example_parse3:
  "rend_parse_service_descriptor example_crypto example_bytes3 = Inr example_desc3"
  by (simp add: codec_defs example_desc3_def example_bytes3_def parse_intro_points_numeral)

lemma example_service_ids:
  "rend_get_service_id example_crypto (pk example_desc) = Some example_id"
  "rend_get_service_id example_crypto (pk example_desc2) = Some example_id"
  "rend_get_service_id example_crypto (pk example_desc3) = Some example_id"
  by (simp_all add: example_desc_def example_desc2_def example_desc3_def example_service_id
      example_id_def)

lemma example_id_lower: "tor_strlower example_id = example_id"
  by (simp add: example_id_def tor_strlower_def tor_tolower_def)

lemmas cache_eval = strmap_get_lc_def strmap_set_lc_def strmap_get_def strmap_set_def
  example_id_lower example_cache_def example_entry_def rend_cache_init_def strmap_new_def
  REND_CACHE_MAX_AGE_def REND_CACHE_MAX_SKEW_def memcmp_eq_def

lemma example_store_first:
  "rend_cache_store example_crypto 1000500 1000500 rend_cache_init example_bytes
     = (0, example_cache)"
  unfolding rend_cache_store_parsed [OF example_parse example_service_ids(1)]
  by (simp add: cache_eval example_desc_def example_bytes_def)

lemma example_store_second:
  "rend_cache_store example_crypto 1000500 1000500 example_cache example_bytes2
     = (0, [(example_id, \<lparr>len = 16, received = 1000500, desc = example_bytes2,
                            parsed = example_desc2\<rparr>)])"
  unfolding rend_cache_store_parsed [OF example_parse2 example_service_ids(2)]
  by (simp add: cache_eval example_desc_def example_desc2_def example_bytes_def example_bytes2_def)

lemma example_store_stale:
  "rend_cache_store example_crypto 1086401 1086401 example_cache example_bytes
     = (-1, example_cache)"
  unfolding rend_cache_store_parsed [OF example_parse example_service_ids(1)]
  by (simp add: cache_eval example_desc_def example_bytes_def)

lemma example_parse_failing:
  "rend_parse_service_descriptor failing_digest_crypto example_bytes = Inr example_desc"
  by (simp add: codec_defs failing_digest_crypto_def parse_intro_points_numeral)

lemma failing_digest_no_id: "rend_get_service_id failing_digest_crypto k = None"
  by (simp add: rend_get_service_id_def failing_digest_crypto_def)

lemma example_store_no_id:
  "rend_cache_store failing_digest_crypto 1000500 1000500 rend_cache_init example_bytes
     = (-1, rend_cache_init)"
  by (simp add: rend_cache_store_def example_parse_failing failing_digest_no_id)

lemma example_store_third:
  "rend_cache_store example_crypto 1000500 1000500 rend_cache_init example_bytes3
     = (0, [(example_id, \<lparr>len = 18, received = 1000500, desc = example_bytes3,
                            parsed = example_desc3\<rparr>)])"
  unfolding rend_cache_store_parsed [OF example_parse3 example_service_ids(3)]
  by (simp add: cache_eval example_desc3_def example_bytes3_def)

lemma example_store_older:
  "rend_cache_store example_crypto 1000600 1000600
     [(example_id, \<lparr>len = 18, received = 1000500, desc = example_bytes3,
                     parsed = example_desc3\<rparr>)] example_bytes
     = (0, [(example_id, \<lparr>len = 18, received = 1000500, desc = example_bytes3,
                            parsed = example_desc3\<rparr>)])"
  unfolding rend_cache_store_parsed [OF example_parse example_service_ids(1)]
  by (simp add: cache_eval example_desc3_def example_desc_def)

lemma example_desc_service_ids:
  "desc_service_id example_crypto example_bytes = Some example_id"
  "desc_service_id example_crypto example_bytes3 = Some example_id"
  by (simp_all add: desc_service_id_def example_parse example_parse3 example_service_ids
      example_id_lower)

lemma example_desc_timestamps:
  "desc_timestamp example_crypto example_bytes = Some 1000000"
  "desc_timestamp example_crypto example_bytes3 = Some 1000010"
  by (simp_all add: desc_timestamp_def example_parse example_parse3 example_desc_def
      example_desc3_def)

subsection \<open>Rejection, freshness, duplicates, equal timestamps\<close>

text \<open>
  Claim C10. Whenever \<^verbatim>\<open>rend_cache_store\<close> returns \<open>-1\<close> (the descriptor does not
  parse, its service ID cannot be computed, it is too old, or it is too far in the
  future), the cache is exactly what it was before the call.
\<close>

theorem store_rejection_leaves_cache:
  "fst (rend_cache_store cr now now' cache d) = -1 \<Longrightarrow>
   snd (rend_cache_store cr now now' cache d) = cache"
  by (auto simp: rend_cache_store_def Let_def split: sum.splits option.splits if_splits)


theorem store_rejection_leaves_cache_witness:
  "fst (rend_cache_store example_crypto 1086401 1086401 example_cache example_bytes) = -1
   \<and> snd (rend_cache_store example_crypto 1086401 1086401 example_cache example_bytes)
       = example_cache"
proof -
  have h: "fst (rend_cache_store example_crypto 1086401 1086401 example_cache example_bytes) = -1"
    by (simp add: example_store_stale)
  show ?thesis using h store_rejection_leaves_cache [OF h] by simp
qed

text \<open>
  Claim C3, as amended. For every byte string that parses and verifies as a descriptor
  and whose service ID can be computed, \<^verbatim>\<open>rend_cache_store\<close> returns 0 if and only if
  \<open>now - 86400 \<le> timestamp \<le> now + 5400\<close>. Outside that window it returns \<open>-1\<close> and
  leaves the cache as it was; inside it the cache is unchanged (a newer descriptor is
  held), or the entry found has its \<open>received\<close> time refreshed, or the new entry is put
  under the service ID.
\<close>

theorem store_freshness_window:
  assumes p: "rend_parse_service_descriptor cr d = Inr p"
    and q: "rend_get_service_id cr (pk p) = Some q"
  shows "(fst (rend_cache_store cr now now' cache d) = 0
            \<longleftrightarrow> now - 86400 \<le> timestamp p \<and> timestamp p \<le> now + 5400)
       \<and> (\<not> (now - 86400 \<le> timestamp p \<and> timestamp p \<le> now + 5400)
            \<longrightarrow> rend_cache_store cr now now' cache d = (-1, cache))
       \<and> (now - 86400 \<le> timestamp p \<and> timestamp p \<le> now + 5400
            \<longrightarrow> snd (rend_cache_store cr now now' cache d) = cache
                \<or> (\<exists>e. strmap_get_lc cache q = Some e
                       \<and> snd (rend_cache_store cr now now' cache d)
                           = strmap_set_lc cache q (e\<lparr>received := now'\<rparr>))
                \<or> snd (rend_cache_store cr now now' cache d)
                     = strmap_set_lc cache q
                         \<lparr>len = int (length d), received = now', desc = d, parsed = p\<rparr>)"
  unfolding rend_cache_store_parsed [OF p q]
  by (auto simp: REND_CACHE_MAX_AGE_def REND_CACHE_MAX_SKEW_def split: option.splits)

theorem store_freshness_window_witness:
  "rend_parse_service_descriptor example_crypto example_bytes = Inr example_desc
   \<and> rend_get_service_id example_crypto (pk example_desc) = Some example_id
   \<and> fst (rend_cache_store example_crypto 1000500 1000500 rend_cache_init example_bytes) = 0
   \<and> rend_cache_store example_crypto 1086401 1086401 rend_cache_init example_bytes
       = (-1, rend_cache_init)"
proof -
  have t: "timestamp example_desc = 1000000" by (simp add: example_desc_def)
  show ?thesis
    using example_parse example_service_ids(1) t
      store_freshness_window [OF example_parse example_service_ids(1),
        of 1000500 1000500 rend_cache_init]
      store_freshness_window [OF example_parse example_service_ids(1),
        of 1086401 1086401 rend_cache_init]
    by simp
qed

text \<open>
  Claim C3, as stated, fails where the service ID cannot be computed: with a crypto layer
  whose digest fails, the example descriptor parses and its timestamp is inside the
  window, and \<^verbatim>\<open>rend_cache_store\<close> returns \<open>-1\<close>.
\<close>

theorem store_id_failure_counterexample:
  "rend_parse_service_descriptor failing_digest_crypto example_bytes = Inr example_desc
   \<and> 1000500 - 86400 \<le> timestamp example_desc
   \<and> timestamp example_desc \<le> 1000500 + 5400
   \<and> rend_cache_store failing_digest_crypto 1000500 1000500 rend_cache_init example_bytes
       = (-1, rend_cache_init)"
  using example_parse_failing example_store_no_id by (simp add: example_desc_def)

text \<open>
  Claim C9, as amended. When \<^verbatim>\<open>rend_cache_store\<close> is called with the bytes of the
  entry cached for that service ID, and the timestamp of the descriptor is within the
  freshness window at \<open>now\<close>, it returns 0 and sets only the \<open>received\<close> field of the
  entry, to the clock value read at that moment; \<open>parsed\<close>, the bytes and \<open>len\<close> are
  the same, and no other key of the cache changes.
\<close>

theorem store_duplicate_refreshes:
  assumes ec: "entry_consistent cr e"
    and q: "rend_get_service_id cr (pk (parsed e)) = Some q"
    and hit: "strmap_get_lc cache q = Some e"
    and fresh: "now - 86400 \<le> timestamp (parsed e)" "timestamp (parsed e) \<le> now + 5400"
  shows "rend_cache_store cr now now' cache (desc e)
           = (0, strmap_set_lc cache q (e\<lparr>received := now'\<rparr>))
       \<and> strmap_get_lc (strmap_set_lc cache q (e\<lparr>received := now'\<rparr>)) q
           = Some \<lparr>len = len e, received = now', desc = desc e, parsed = parsed e\<rparr>
       \<and> (\<forall>k. k \<noteq> tor_strlower q \<longrightarrow>
             strmap_get (strmap_set_lc cache q (e\<lparr>received := now'\<rparr>)) k = strmap_get cache k)"
proof -
  have p: "rend_parse_service_descriptor cr (desc e) = Inr (parsed e)"
    and l: "len e = int (length (desc e))"
    using ec by (simp_all add: entry_consistent_def)
  have st: "rend_cache_store cr now now' cache (desc e)
          = (0, strmap_set_lc cache q (e\<lparr>received := now'\<rparr>))"
    unfolding rend_cache_store_parsed [OF p q]
    using hit fresh l
    by (simp add: REND_CACHE_MAX_AGE_def REND_CACHE_MAX_SKEW_def memcmp_eq_def)
  have eq: "e\<lparr>received := now'\<rparr>
              = \<lparr>len = len e, received = now', desc = desc e, parsed = parsed e\<rparr>"
    by (cases e) simp
  have g: "strmap_get_lc (strmap_set_lc cache q (e\<lparr>received := now'\<rparr>)) q
             = Some \<lparr>len = len e, received = now', desc = desc e, parsed = parsed e\<rparr>"
    unfolding eq by (rule strmap_get_lc_set_lc)
  have o: "\<forall>k. k \<noteq> tor_strlower q \<longrightarrow>
             strmap_get (strmap_set_lc cache q (e\<lparr>received := now'\<rparr>)) k = strmap_get cache k"
    by (simp add: strmap_get_set_lc_other)
  show ?thesis by (intro conjI) (rule st, rule g, rule o)
qed


theorem store_duplicate_refreshes_witness:
  "entry_consistent example_crypto example_entry
   \<and> rend_get_service_id example_crypto (pk (parsed example_entry)) = Some example_id
   \<and> strmap_get_lc example_cache example_id = Some example_entry
   \<and> 1000600 - 86400 \<le> timestamp (parsed example_entry)
   \<and> timestamp (parsed example_entry) \<le> 1000600 + 5400
   \<and> rend_cache_store example_crypto 1000600 1000601 example_cache (desc example_entry)
       = (0, [(example_id, example_entry\<lparr>received := 1000601\<rparr>)])"
proof -
  have h1: "entry_consistent example_crypto example_entry"
    using example_parse by (simp add: entry_consistent_def example_entry_def example_bytes_def)
  have h2: "rend_get_service_id example_crypto (pk (parsed example_entry)) = Some example_id"
    using example_service_ids(1) by (simp add: example_entry_def)
  have h3: "strmap_get_lc example_cache example_id = Some example_entry"
    by (simp add: cache_eval)
  have h4: "1000600 - 86400 \<le> timestamp (parsed example_entry)"
    by (simp add: example_entry_def example_desc_def)
  have h5: "timestamp (parsed example_entry) \<le> 1000600 + 5400"
    by (simp add: example_entry_def example_desc_def)
  have s: "strmap_set_lc example_cache example_id (example_entry\<lparr>received := 1000601\<rparr>)
             = [(example_id, example_entry\<lparr>received := 1000601\<rparr>)]"
    by (simp add: strmap_set_lc_def strmap_set_def example_id_lower example_cache_def)
  show ?thesis
    using h1 h2 h3 h4 h5 store_duplicate_refreshes [OF h1 h2 h3 h4 h5, of 1000601] s
    by simp
qed

text \<open>
  Claim C9, as stated, fails for a duplicate that has become stale: the bytes of the
  cached entry, presented again at time \<open>1000000 + 86401\<close>, are rejected with \<open>-1\<close> and
  \<open>received\<close> is not updated.
\<close>

theorem store_duplicate_stale_counterexample:
  "strmap_get_lc example_cache example_id = Some example_entry
   \<and> desc example_entry = example_bytes
   \<and> len example_entry = int (length example_bytes)
   \<and> rend_cache_store example_crypto 1086401 1086401 example_cache example_bytes
       = (-1, example_cache)"
  using example_store_stale by (simp add: cache_eval example_bytes_def)

text \<open>
  Claim C2, as amended. Two calls of \<^verbatim>\<open>rend_cache_store\<close> present descriptors that
  parse, are fresh, have the same service ID and the same timestamp, and differ in their
  bytes; no entry is cached for the service before the first call. Then both calls
  return 0, the first stores its descriptor, and the second replaces it: afterwards the
  entry holds the parsed form and the bytes of the later descriptor.
\<close>

theorem store_equal_timestamp_replaces:
  assumes p1: "rend_parse_service_descriptor cr d1 = Inr p1"
    and p2: "rend_parse_service_descriptor cr d2 = Inr p2"
    and q1: "rend_get_service_id cr (pk p1) = Some q1"
    and q2: "rend_get_service_id cr (pk p2) = Some q2"
    and same: "tor_strlower q1 = tor_strlower q2"
    and fresh1: "n1 - 86400 \<le> timestamp p1" "timestamp p1 \<le> n1 + 5400"
    and fresh2: "n2 - 86400 \<le> timestamp p2" "timestamp p2 \<le> n2 + 5400"
    and eqts: "timestamp p1 = timestamp p2"
    and diff: "d1 \<noteq> d2"
    and none: "strmap_get_lc cache q1 = None"
  shows "rend_cache_store cr n1 n1' cache d1
           = (0, strmap_set_lc cache q1
                   \<lparr>len = int (length d1), received = n1', desc = d1, parsed = p1\<rparr>)
       \<and> rend_cache_store cr n2 n2'
             (strmap_set_lc cache q1
                \<lparr>len = int (length d1), received = n1', desc = d1, parsed = p1\<rparr>) d2
           = (0, strmap_set_lc
                   (strmap_set_lc cache q1
                      \<lparr>len = int (length d1), received = n1', desc = d1, parsed = p1\<rparr>)
                   q2 \<lparr>len = int (length d2), received = n2', desc = d2, parsed = p2\<rparr>)
       \<and> strmap_get_lc
             (strmap_set_lc
                (strmap_set_lc cache q1
                   \<lparr>len = int (length d1), received = n1', desc = d1, parsed = p1\<rparr>)
                q2 \<lparr>len = int (length d2), received = n2', desc = d2, parsed = p2\<rparr>) q1
           = Some \<lparr>len = int (length d2), received = n2', desc = d2, parsed = p2\<rparr>"
proof -
  let ?e1 = "\<lparr>len = int (length d1), received = n1', desc = d1, parsed = p1\<rparr>"
  let ?e2 = "\<lparr>len = int (length d2), received = n2', desc = d2, parsed = p2\<rparr>"
  let ?c1 = "strmap_set_lc cache q1 ?e1"
  let ?c2 = "strmap_set_lc ?c1 q2 ?e2"
  have s1: "rend_cache_store cr n1 n1' cache d1 = (0, ?c1)"
    unfolding rend_cache_store_parsed [OF p1 q1]
    using none fresh1 by (simp add: REND_CACHE_MAX_AGE_def REND_CACHE_MAX_SKEW_def)
  have g1: "strmap_get_lc ?c1 q1 = Some ?e1" by (rule strmap_get_lc_set_lc)
  have g1': "strmap_get_lc ?c1 q2 = Some ?e1"
    using g1 same by (simp add: strmap_get_lc_def)
  have s2: "rend_cache_store cr n2 n2' ?c1 d2 = (0, ?c2)"
  proof (cases "length d1 = length d2")
    case True
    then have "\<not> memcmp_eq d2 d1 (length d2)"
      using diff memcmp_eq_same_length [of d2 d1] by auto
    then show ?thesis
      unfolding rend_cache_store_parsed [OF p2 q2]
      using g1' fresh2 eqts by (simp add: REND_CACHE_MAX_AGE_def REND_CACHE_MAX_SKEW_def)
  next
    case False
    then show ?thesis
      unfolding rend_cache_store_parsed [OF p2 q2]
      using g1' fresh2 eqts by (simp add: REND_CACHE_MAX_AGE_def REND_CACHE_MAX_SKEW_def)
  qed
  have g2: "strmap_get_lc ?c2 q1 = Some ?e2"
    using strmap_get_lc_set_lc [of ?c1 q2 ?e2] same by (simp add: strmap_get_lc_def)
  show ?thesis
    by (intro conjI) (rule s1, rule s2, rule g2)
qed


theorem store_equal_timestamp_replaces_witness:
  "rend_parse_service_descriptor example_crypto example_bytes = Inr example_desc
   \<and> rend_parse_service_descriptor example_crypto example_bytes2 = Inr example_desc2
   \<and> rend_get_service_id example_crypto (pk example_desc) = Some example_id
   \<and> rend_get_service_id example_crypto (pk example_desc2) = Some example_id
   \<and> tor_strlower example_id = tor_strlower example_id
   \<and> 1000500 - 86400 \<le> timestamp example_desc \<and> timestamp example_desc \<le> 1000500 + 5400
   \<and> 1000600 - 86400 \<le> timestamp example_desc2 \<and> timestamp example_desc2 \<le> 1000600 + 5400
   \<and> timestamp example_desc = timestamp example_desc2
   \<and> example_bytes \<noteq> example_bytes2
   \<and> strmap_get_lc rend_cache_init example_id = None
   \<and> strmap_get_lc
         (strmap_set_lc
            (strmap_set_lc rend_cache_init example_id
               \<lparr>len = int (length example_bytes), received = 1000500, desc = example_bytes,
                  parsed = example_desc\<rparr>)
            example_id
            \<lparr>len = int (length example_bytes2), received = 1000600, desc = example_bytes2,
               parsed = example_desc2\<rparr>) example_id
       = Some \<lparr>len = int (length example_bytes2), received = 1000600, desc = example_bytes2,
                parsed = example_desc2\<rparr>"
proof -
  have same: "tor_strlower example_id = tor_strlower example_id" by simp
  have f1: "1000500 - 86400 \<le> timestamp example_desc" "timestamp example_desc \<le> 1000500 + 5400"
    by (simp_all add: example_desc_def)
  have f2: "1000600 - 86400 \<le> timestamp example_desc2" "timestamp example_desc2 \<le> 1000600 + 5400"
    by (simp_all add: example_desc2_def)
  have eqts: "timestamp example_desc = timestamp example_desc2"
    by (simp add: example_desc_def example_desc2_def)
  have diff: "example_bytes \<noteq> example_bytes2"
    by (simp add: example_bytes_def example_bytes2_def)
  have none: "strmap_get_lc rend_cache_init example_id = None"
    by (simp add: cache_eval)
  show ?thesis
    using example_parse example_parse2 example_service_ids(1,2) f1 f2 eqts diff none
      store_equal_timestamp_replaces [OF example_parse example_parse2
        example_service_ids(1) example_service_ids(2) same f1 f2 eqts diff none,
        of 1000500 1000600]
    by simp
qed

text \<open>
  Claim C2, as stated, fails: the two example descriptors of key 7 carry the same
  timestamp and differ in their bytes; stored one after the other, the second call
  returns 0 and the cache then holds the second descriptor.
\<close>

theorem store_equal_timestamp_counterexample:
  "rend_parse_service_descriptor example_crypto example_bytes = Inr example_desc
   \<and> rend_parse_service_descriptor example_crypto example_bytes2 = Inr example_desc2
   \<and> rend_get_service_id example_crypto (pk example_desc) = Some example_id
   \<and> rend_get_service_id example_crypto (pk example_desc2) = Some example_id
   \<and> timestamp example_desc = timestamp example_desc2
   \<and> example_bytes \<noteq> example_bytes2
   \<and> rend_cache_store example_crypto 1000500 1000500 rend_cache_init example_bytes
       = (0, example_cache)
   \<and> rend_cache_store example_crypto 1000500 1000500 example_cache example_bytes2
       = (0, [(example_id, \<lparr>len = 16, received = 1000500, desc = example_bytes2,
                              parsed = example_desc2\<rparr>)])"
  using example_parse example_parse2 example_service_ids example_store_first
    example_store_second
  by (simp add: example_desc_def example_desc2_def example_bytes_def example_bytes2_def)

subsection \<open>Lookup\<close>

lemma tor_tolower_base32: "c \<in> set BASE32_CHARS \<Longrightarrow> tor_tolower c = c"
  by (auto simp: BASE32_CHARS_def tor_tolower_def)

lemma isupper_not_base32: "isupper c \<Longrightarrow> c \<notin> set BASE32_CHARS"
  by (auto simp: BASE32_CHARS_def isupper_def)

lemma valid_service_id_chars:
  "rend_valid_service_id q \<Longrightarrow> \<forall>c \<in> set q. c \<in> set BASE32_CHARS"
proof -
  assume v: "rend_valid_service_id q"
  then have "length (takeWhile (\<lambda>c. c \<in> set BASE32_CHARS) q) = length q"
    by (simp add: rend_valid_service_id_def strspn_def split: if_splits)
  then have "takeWhile (\<lambda>c. c \<in> set BASE32_CHARS) q = q"
    by (metis takeWhile_eq_take take_all order_refl)
  then show ?thesis by (metis set_takeWhileD)
qed

lemma valid_service_id_lower: "rend_valid_service_id q \<Longrightarrow> tor_strlower q = q"
  using valid_service_id_chars [of q]
  by (simp add: tor_strlower_def tor_tolower_base32 map_idI)

text \<open>
  Claim C5, as amended. A lookup with a valid service ID (sixteen characters of the
  lowercase base32 alphabet) under which an entry is stored returns that entry with
  status 1. A query in which any letter is upper case does not pass
  \<^verbatim>\<open>rend_valid_service_id\<close>: the lookup returns \<open>-1\<close> and no entry.
\<close>

theorem lookup_valid_hit_upper_rejected:
  "(rend_valid_service_id query \<and> strmap_get cache query = Some e
      \<longrightarrow> rend_cache_lookup_entry cache query = (1, Some e))
   \<and> ((\<exists>c \<in> set query. isupper c)
      \<longrightarrow> rend_cache_lookup_entry cache query = (-1, None))"
proof (intro conjI impI)
  assume "rend_valid_service_id query \<and> strmap_get cache query = Some e"
  then show "rend_cache_lookup_entry cache query = (1, Some e)"
    by (simp add: rend_cache_lookup_entry_def strmap_get_lc_def valid_service_id_lower)
next
  assume "\<exists>c \<in> set query. isupper c"
  then have "\<not> rend_valid_service_id query"
    using valid_service_id_chars [of query] isupper_not_base32 by blast
  then show "rend_cache_lookup_entry cache query = (-1, None)"
    by (simp add: rend_cache_lookup_entry_def)
qed


theorem lookup_valid_hit_upper_rejected_witness:
  "rend_valid_service_id example_id
   \<and> strmap_get example_cache example_id = Some example_entry
   \<and> rend_cache_lookup_entry example_cache example_id = (1, Some example_entry)
   \<and> isupper CHR ''H''
   \<and> rend_cache_lookup_entry example_cache ''Hhhhhhhhhhhhhhhh'' = (-1, None)"
proof -
  have v: "rend_valid_service_id example_id"
    by (simp add: example_id_def rend_valid_service_id_def strspn_def BASE32_CHARS_def
        REND_SERVICE_ID_LEN_def)
  have g: "strmap_get example_cache example_id = Some example_entry"
    by (simp add: cache_eval)
  have u: "isupper CHR ''H''" by (simp add: isupper_def)
  have u': "\<exists>c \<in> set ''Hhhhhhhhhhhhhhhh''. isupper c" using u by simp
  show ?thesis
    using v g u u'
      lookup_valid_hit_upper_rejected [of example_id example_cache example_entry]
      lookup_valid_hit_upper_rejected [of "''Hhhhhhhhhhhhhhhh''" example_cache example_entry]
    by blast
qed

text \<open>
  Claim C5, as stated, fails: with an entry stored under the service ID of key 7, the
  query that spells the same ID in upper case returns \<open>-1\<close>; so does the query
  \<open>ABCDEFGH23456789\<close> against an entry under \<open>abcdefgh23456789\<close>.
\<close>

theorem lookup_upper_case_counterexample:
  "strmap_get example_cache example_id = Some example_entry
   \<and> tor_strlower ''HHHHHHHHHHHHHHHH'' = example_id
   \<and> rend_cache_lookup_entry example_cache ''HHHHHHHHHHHHHHHH'' = (-1, None)
   \<and> rend_cache_lookup_entry [(''abcdefgh23456789'', example_entry)] ''ABCDEFGH23456789''
       = (-1, None)"
  by (simp add: cache_eval example_id_def tor_strlower_def tor_tolower_def char_of_def bit_0
      rend_cache_lookup_entry_def rend_valid_service_id_def strspn_def BASE32_CHARS_def
      REND_SERVICE_ID_LEN_def)

subsection \<open>Cleaning\<close>

lemma clean_loop_mem:
  "(k, e) \<in> set (rend_cache_clean_loop cutoff cache) \<Longrightarrow>
   (k, e) \<in> set cache \<and> \<not> timestamp (parsed e) < cutoff"
  by (induction cutoff cache rule: rend_cache_clean_loop.induct) (auto split: if_splits)

lemma clean_loop_keeps:
  "map_of cache k = Some e \<Longrightarrow> \<not> timestamp (parsed e) < cutoff \<Longrightarrow>
   map_of (rend_cache_clean_loop cutoff cache) k = Some e"
  by (induction cutoff cache rule: rend_cache_clean_loop.induct) (auto split: if_splits)

text \<open>
  Claim C8. After \<^verbatim>\<open>rend_cache_clean\<close> has run at time \<open>now\<close>, no entry of the cache
  has a timestamp below \<open>now - 86400\<close>, and every entry that was in the cache with a
  timestamp of at least \<open>now - 86400\<close> is still there, unchanged, under the same key.
\<close>

theorem clean_removes_exactly_stale:
  "(\<forall>k e. strmap_get (rend_cache_clean now cache) k = Some e
       \<longrightarrow> \<not> timestamp (parsed e) < now - 86400)
   \<and> (\<forall>k e. strmap_get cache k = Some e \<and> now - 86400 \<le> timestamp (parsed e)
       \<longrightarrow> strmap_get (rend_cache_clean now cache) k = Some e)"
proof (intro conjI allI impI)
  fix k e
  assume "strmap_get (rend_cache_clean now cache) k = Some e"
  then have "(k, e) \<in> set (rend_cache_clean_loop (now - 86400) cache)"
    by (simp add: strmap_get_def rend_cache_clean_def REND_CACHE_MAX_AGE_def map_of_SomeD)
  then show "\<not> timestamp (parsed e) < now - 86400"
    using clean_loop_mem by blast
next
  fix k e
  assume "strmap_get cache k = Some e \<and> now - 86400 \<le> timestamp (parsed e)"
  then show "strmap_get (rend_cache_clean now cache) k = Some e"
    by (simp add: strmap_get_def rend_cache_clean_def REND_CACHE_MAX_AGE_def clean_loop_keeps)
qed

theorem clean_removes_exactly_stale_witness:
  "strmap_get example_cache2 example_id = Some example_entry
   \<and> 1000500 - 86400 \<le> timestamp (parsed example_entry)
   \<and> strmap_get (rend_cache_clean 1000500 example_cache2) example_id = Some example_entry
   \<and> \<not> timestamp (parsed example_entry) < 1000500 - 86400
   \<and> rend_cache_clean 1000500 example_cache2 = example_cache"
proof -
  have g: "strmap_get example_cache2 example_id = Some example_entry"
    by (simp add: strmap_get_def example_cache2_def example_id_def)
  have f: "1000500 - 86400 \<le> timestamp (parsed example_entry)"
    by (simp add: example_entry_def example_desc_def)
  have c: "rend_cache_clean 1000500 example_cache2 = example_cache"
    by (simp add: rend_cache_clean_def REND_CACHE_MAX_AGE_def example_cache2_def
        example_cache_def example_old_entry_def example_entry_def example_desc_def)
  show ?thesis
    using g f c clean_removes_exactly_stale [of 1000500 example_cache2]
    by auto
qed

subsection \<open>Monotonicity\<close>

lemma store_never_older:
  assumes "strmap_get cache key = Some e"
    and "strmap_get (snd (rend_cache_store cr now now' cache d)) key = Some e'"
  shows "timestamp (parsed e) \<le> timestamp (parsed e')"
proof (cases "rend_parse_service_descriptor cr d")
  case (Inl err)
  then show ?thesis using assms by (simp add: rend_cache_store_def)
next
  case (Inr p)
  show ?thesis
  proof (cases "rend_get_service_id cr (pk p)")
    case None
    then show ?thesis using assms Inr by (simp add: rend_cache_store_def)
  next
    case (Some q)
    show ?thesis
      using assms unfolding rend_cache_store_parsed [OF Inr Some]
      by (auto simp: strmap_get_lc_def strmap_set_lc_def strmap_get_set
               split: if_splits option.splits)
  qed
qed

lemma desc_service_idD:
  "desc_service_id cr d = Some k \<Longrightarrow>
   \<exists>p q. rend_parse_service_descriptor cr d = Inr p
        \<and> rend_get_service_id cr (pk p) = Some q \<and> k = tor_strlower q
        \<and> desc_timestamp cr d = Some (timestamp p)"
  by (auto simp: desc_service_id_def desc_timestamp_def split: sum.splits)

lemma memcmp_eq_whole:
  "length a = length b \<Longrightarrow> memcmp_eq a b (length a) \<Longrightarrow> a = b"
  by (simp add: memcmp_eq_def)

lemma store_step_timestamp:
  assumes p: "rend_parse_service_descriptor cr d = Inr p"
    and q: "rend_get_service_id cr (pk p) = Some q"
    and inv: "\<forall>e. strmap_get cache (tor_strlower q) = Some e \<longrightarrow> entry_consistent cr e"
    and st: "rend_cache_store cr now now' cache d = (r, cache')"
  shows "cached_timestamp cache' (tor_strlower q)
           = (if r = 0 then max_timestamp (cached_timestamp cache (tor_strlower q)) (timestamp p)
              else cached_timestamp cache (tor_strlower q))
         \<and> (\<forall>e. strmap_get cache' (tor_strlower q) = Some e \<longrightarrow> entry_consistent cr e)"
proof (cases "strmap_get cache (tor_strlower q)")
  case None
  then show ?thesis
    using st p unfolding rend_cache_store_parsed [OF p q]
    by (auto simp: strmap_get_lc_def strmap_set_lc_def strmap_get_set cached_timestamp_def
          max_timestamp_def entry_consistent_def split: if_splits)
next
  case (Some e)
  have ec: "rend_parse_service_descriptor cr (desc e) = Inr (parsed e)"
    "len e = int (length (desc e))"
    using inv Some by (simp_all add: entry_consistent_def)
  have dup: "len e = int (length d) \<Longrightarrow> memcmp_eq d (desc e) (length d) \<Longrightarrow> parsed e = p"
  proof -
    assume "len e = int (length d)" and m: "memcmp_eq d (desc e) (length d)"
    then have "length d = length (desc e)" using ec by simp
    then have "d = desc e" using m by (rule memcmp_eq_whole)
    then show "parsed e = p" using ec p by simp
  qed
  show ?thesis
  proof (cases "len e = int (length d) \<and> memcmp_eq d (desc e) (length d)")
    case True
    then have pe: "parsed e = p" using dup by simp
    have ec': "entry_consistent cr (e\<lparr>received := now'\<rparr>)"
      using ec by (simp add: entry_consistent_def)
    show ?thesis
      using st Some True ec' unfolding rend_cache_store_parsed [OF p q]
      by (auto simp: strmap_get_lc_def strmap_set_lc_def strmap_get_set cached_timestamp_def
            max_timestamp_def pe inv split: if_splits)
  next
    case False
    have ec': "entry_consistent cr \<lparr>len = int (length d), received = now', desc = d, parsed = p\<rparr>"
      using p by (simp add: entry_consistent_def)
    show ?thesis
      using st Some False ec' inv unfolding rend_cache_store_parsed [OF p q]
      by (auto simp: strmap_get_lc_def strmap_set_lc_def strmap_get_set cached_timestamp_def
            max_timestamp_def split: if_splits)
  qed
qed

lemma store_seq_timestamp:
  assumes "\<forall>call \<in> set calls. desc_service_id cr (snd (snd call)) = Some k"
    and "\<forall>e. strmap_get cache k = Some e \<longrightarrow> entry_consistent cr e"
    and "rend_cache_store_seq cr cache calls = (rs, cache')"
  shows "cached_timestamp cache' k
           = foldl max_timestamp (cached_timestamp cache k) (accepted_timestamps cr calls rs)"
  using assms
proof (induction calls arbitrary: cache rs)
  case Nil
  then show ?case by simp
next
  case (Cons call calls)
  obtain now now' d where call: "call = (now, now', d)" by (cases call) auto
  obtain r c1 where st: "rend_cache_store cr now now' cache d = (r, c1)"
    by (cases "rend_cache_store cr now now' cache d") auto
  obtain rs1 where seq: "rend_cache_store_seq cr c1 calls = (rs1, cache')" and rs: "rs = r # rs1"
    using Cons.prems(3) call st by (auto split: prod.splits)
  have "desc_service_id cr d = Some k" using Cons.prems(1) call by simp
  from desc_service_idD [OF this] obtain p q where
    p: "rend_parse_service_descriptor cr d = Inr p"
    and q: "rend_get_service_id cr (pk p) = Some q" and k: "k = tor_strlower q"
    and t: "desc_timestamp cr d = Some (timestamp p)" by blast
  have inv: "\<forall>e. strmap_get cache (tor_strlower q) = Some e \<longrightarrow> entry_consistent cr e"
    using Cons.prems(2) k by simp
  note step = store_step_timestamp [OF p q inv st]
  have inv1: "\<forall>e. strmap_get c1 k = Some e \<longrightarrow> entry_consistent cr e"
    using step k by simp
  have all: "\<forall>call \<in> set calls. desc_service_id cr (snd (snd call)) = Some k"
    using Cons.prems(1) by simp
  have ih: "cached_timestamp cache' k
              = foldl max_timestamp (cached_timestamp c1 k) (accepted_timestamps cr calls rs1)"
    using Cons.IH [OF all inv1 seq] .
  show ?case
    using ih step k by (simp add: call rs t)
qed

lemma max_timestamp_simps:
  "max_timestamp None t = Some t"
  "max_timestamp (Some a) t = Some (max a t)"
  by (simp_all add: max_timestamp_def)

lemma foldl_max_timestamp_Some:
  "foldl max_timestamp (Some a) ts = Some (Max (set (a # ts)))"
proof (induction ts arbitrary: a)
  case Nil
  then show ?case by simp
next
  case (Cons t ts)
  have "foldl max_timestamp (Some a) (t # ts) = Some (Max (set (max a t # ts)))"
    using Cons.IH [of "max a t"] by (simp add: max_timestamp_simps)
  also have "Max (set (max a t # ts)) = Max (set (a # t # ts))"
    by (cases "ts = []") (simp_all add: max.assoc)
  finally show ?case .
qed

lemma foldl_max_timestamp_None:
  "ts \<noteq> [] \<Longrightarrow> foldl max_timestamp None ts = Some (Max (set ts))"
  by (cases ts) (simp_all add: max_timestamp_simps foldl_max_timestamp_Some)

text \<open>
  Claim C4. A sequence of calls of \<^verbatim>\<open>rend_cache_store\<close> presents descriptors of one
  service ID to a cache that holds no entry for it. Afterwards, if none of the calls
  returned 0 the cache still holds no entry for the service, and otherwise the timestamp
  of the cached entry is the maximum of the timestamps of the descriptors whose call
  returned 0. Moreover no call of \<^verbatim>\<open>rend_cache_store\<close>, on any cache, leaves under a
  key an entry with a smaller timestamp than the entry that was there before.
\<close>

theorem cache_monotonicity:
  assumes single: "\<forall>call \<in> set calls. desc_service_id cr (snd (snd call)) = Some k"
    and start: "strmap_get cache k = None"
    and run: "rend_cache_store_seq cr cache calls = (rs, cache')"
  shows "(accepted_timestamps cr calls rs = [] \<longrightarrow> strmap_get cache' k = strmap_get cache k)
       \<and> (accepted_timestamps cr calls rs \<noteq> [] \<longrightarrow>
            cached_timestamp cache' k = Some (Max (set (accepted_timestamps cr calls rs))))
       \<and> (\<forall>now now' c d key e e'.
             strmap_get c key = Some e
             \<and> strmap_get (snd (rend_cache_store cr now now' c d)) key = Some e'
             \<longrightarrow> timestamp (parsed e) \<le> timestamp (parsed e'))"
proof -
  have inv: "\<forall>e. strmap_get cache k = Some e \<longrightarrow> entry_consistent cr e"
    using start by simp
  have f: "cached_timestamp cache' k
             = foldl max_timestamp None (accepted_timestamps cr calls rs)"
    using store_seq_timestamp [OF single inv run] start by (simp add: cached_timestamp_def)
  have a: "accepted_timestamps cr calls rs = [] \<longrightarrow> strmap_get cache' k = strmap_get cache k"
    using f start by (auto simp: cached_timestamp_def)
  have b: "accepted_timestamps cr calls rs \<noteq> [] \<longrightarrow>
            cached_timestamp cache' k = Some (Max (set (accepted_timestamps cr calls rs)))"
    using f by (simp add: foldl_max_timestamp_None)
  have c: "\<forall>now now' c d key e e'.
             strmap_get c key = Some e
             \<and> strmap_get (snd (rend_cache_store cr now now' c d)) key = Some e'
             \<longrightarrow> timestamp (parsed e) \<le> timestamp (parsed e')"
    using store_never_older by blast
  show ?thesis by (intro conjI) (rule a, rule b, rule c)
qed

theorem cache_monotonicity_witness:
  "desc_service_id example_crypto example_bytes3 = Some example_id
   \<and> desc_service_id example_crypto example_bytes = Some example_id
   \<and> strmap_get rend_cache_init example_id = None
   \<and> rend_cache_store_seq example_crypto rend_cache_init example_calls
       = ([0, 0], [(example_id, \<lparr>len = 18, received = 1000500, desc = example_bytes3,
                                   parsed = example_desc3\<rparr>)])
   \<and> accepted_timestamps example_crypto example_calls [0, 0] = [1000010, 1000000]
   \<and> cached_timestamp [(example_id, \<lparr>len = 18, received = 1000500, desc = example_bytes3,
                                        parsed = example_desc3\<rparr>)] example_id
       = Some 1000010"
proof -
  have h1: "\<forall>call \<in> set example_calls.
              desc_service_id example_crypto (snd (snd call)) = Some example_id"
    by (simp add: example_calls_def example_desc_service_ids)
  have h2: "strmap_get rend_cache_init example_id = None"
    by (simp add: cache_eval)
  have h3: "rend_cache_store_seq example_crypto rend_cache_init example_calls
              = ([0, 0], [(example_id, \<lparr>len = 18, received = 1000500, desc = example_bytes3,
                                          parsed = example_desc3\<rparr>)])"
    by (simp add: example_calls_def example_store_third example_store_older)
  have a: "accepted_timestamps example_crypto example_calls [0, 0] = [1000010, 1000000]"
    by (simp add: example_calls_def example_desc_timestamps)
  show ?thesis
    using example_desc_service_ids h2 h3 a cache_monotonicity [OF h1 h2 h3]
    by simp
qed

subsection \<open>Invariants of the cache\<close>

text \<open>Every cache built from \<^verbatim>\<open>rend_cache_init\<close> by \<^verbatim>\<open>rend_cache_store\<close> and
  \<^verbatim>\<open>rend_cache_clean\<close> has distinct keys, and each of its entries is consistent: its
  parsed form is the parse of its bytes.\<close>

lemma set_strmap_set: "set (strmap_set m k v) \<subseteq> insert (k, v) (set m)"
  unfolding strmap_set_def by (induction m) auto

lemma strmap_get_mem: "strmap_get m k = Some v \<Longrightarrow> (k, v) \<in> set m"
  by (simp add: strmap_get_def map_of_SomeD)

lemma strmap_wf_init: "strmap_wf (rend_cache_init :: 'k rend_cache)"
  by (simp add: strmap_wf_def rend_cache_init_def strmap_new_def)

lemma strmap_wf_store:
  "strmap_wf cache \<Longrightarrow> strmap_wf (snd (rend_cache_store cr now now' cache d))"
  by (auto simp: rend_cache_store_def Let_def strmap_set_lc_def strmap_wf_set
           split: sum.splits option.splits)

lemma clean_loop_keys: "fst ` set (rend_cache_clean_loop cutoff cache) \<subseteq> fst ` set cache"
  by (induction cutoff cache rule: rend_cache_clean_loop.induct) auto

lemma clean_loop_distinct:
  "distinct (map fst cache) \<Longrightarrow> distinct (map fst (rend_cache_clean_loop cutoff cache))"
proof (induction cutoff cache rule: rend_cache_clean_loop.induct)
  case (1 cutoff)
  show ?case by simp
next
  case (2 cutoff key ent iter)
  have "key \<notin> fst ` set (rend_cache_clean_loop cutoff iter)"
    using "2.prems" clean_loop_keys [of cutoff iter] by auto
  then show ?case using 2 by auto
qed

lemma strmap_wf_clean: "strmap_wf cache \<Longrightarrow> strmap_wf (rend_cache_clean now cache)"
  by (simp add: strmap_wf_def rend_cache_clean_def clean_loop_distinct)

lemma cache_consistent_init: "cache_consistent cr rend_cache_init"
  by (simp add: cache_consistent_def rend_cache_init_def strmap_new_def)

lemma cache_consistent_set:
  "cache_consistent cr cache \<Longrightarrow> entry_consistent cr e \<Longrightarrow>
   cache_consistent cr (strmap_set_lc cache q e)"
  using set_strmap_set [of cache "tor_strlower q" e]
  by (auto simp: cache_consistent_def strmap_set_lc_def)

lemma cache_consistent_get:
  "cache_consistent cr cache \<Longrightarrow> strmap_get_lc cache q = Some e \<Longrightarrow> entry_consistent cr e"
  using strmap_get_mem [of cache "tor_strlower q" e]
  by (auto simp: cache_consistent_def strmap_get_lc_def)

lemma cache_consistent_store:
  assumes "cache_consistent cr cache"
  shows "cache_consistent cr (snd (rend_cache_store cr now now' cache d))"
proof (cases "rend_parse_service_descriptor cr d")
  case (Inl err)
  then show ?thesis using assms by (simp add: rend_cache_store_def)
next
  case (Inr p)
  show ?thesis
  proof (cases "rend_get_service_id cr (pk p)")
    case None
    then show ?thesis using assms Inr by (simp add: rend_cache_store_def)
  next
    case (Some q)
    have new: "entry_consistent cr \<lparr>len = int (length d), received = now', desc = d, parsed = p\<rparr>"
      using Inr by (simp add: entry_consistent_def)
    have upd: "entry_consistent cr (e\<lparr>received := now'\<rparr>)"
      if "strmap_get_lc cache q = Some e" for e
      using cache_consistent_get [OF assms that] by (simp add: entry_consistent_def)
    show ?thesis
      unfolding rend_cache_store_parsed [OF Inr Some]
      using assms new upd
      by (auto simp: cache_consistent_set split: option.splits)
  qed
qed

lemma cache_consistent_clean:
  "cache_consistent cr cache \<Longrightarrow> cache_consistent cr (rend_cache_clean now cache)"
  using clean_loop_mem
  by (fastforce simp: cache_consistent_def rend_cache_clean_def)

end
